theory Spec2Isabelle
  imports Complex_Main
begin

section \<open>The secrets store of \<^verbatim>\<open>ai_secrets/storage.py\<close>\<close>

text \<open>
  \<^verbatim>\<open>SecretsStore\<close> keeps secret values in the OS keyring and the secret names in a JSON
  metadata file. Both live outside the Python process, so the model threads a
  \<open>world\<close> through every method: the keyring (a dictionary keyed by service and name, as
  the mock of \<^verbatim>\<open>tests/test_storage.py\<close> has it), the files, and the trace of the
  library calls made so far. The calls of a run that raise are given by a set \<open>F\<close> of
  call kinds; every \<^verbatim>\<open>raise\<close> and every \<^verbatim>\<open>except\<close> of the source is a branch.
\<close>

subsection \<open>Data\<close>

text \<open>
  A Python \<^verbatim>\<open>str\<close> is a \<open>string\<close>; a \<open>char\<close> stands for the code point of the same
  number (code points up to 255). A path is the list of its components.
\<close>

type_synonym path = "string list"

text \<open>
  What \<^verbatim>\<open>json.loads\<close> returns. An object is the list of its items in insertion order;
  in a Python dict its keys are distinct. A finite float is given by its exact value;
  \<open>JNonFinite\<close> is what the literals NaN, Infinity and -Infinity are read as.
\<close>

datatype json =
    JNull
  | JBool bool
  | JInt int
  | JFloat rat
  | JNonFinite
  | JString string
  | JArray "json list"
  | JObject "(string \<times> json) list"

text \<open>
  What is in an existing file, by what \<^verbatim>\<open>read_text(encoding='utf-8')\<close> and then
  \<^verbatim>\<open>json.loads\<close> do with it:
  \<^item> \<open>Undecodable\<close>: the bytes are not UTF-8, \<^verbatim>\<open>read_text\<close> raises \<^verbatim>\<open>UnicodeDecodeError\<close>;
  \<^item> \<open>NotJson\<close>: \<^verbatim>\<open>json.loads\<close> raises \<^verbatim>\<open>JSONDecodeError\<close> (the empty text is such a text);
  \<^item> \<open>TooDeep\<close>: the text nests deeper than the interpreter recurses, \<^verbatim>\<open>json.loads\<close>
    raises \<^verbatim>\<open>RecursionError\<close>;
  \<^item> \<open>IntTooLong\<close>: the text holds an integer of more digits than \<^verbatim>\<open>int\<close> converts (4300
    by default), \<^verbatim>\<open>json.loads\<close> raises a plain \<^verbatim>\<open>ValueError\<close>;
  \<^item> \<open>Doc v\<close>: \<^verbatim>\<open>json.loads\<close> returns the value \<open>v\<close>.
\<close>

datatype content = Undecodable | NotJson | TooDeep | IntTooLong | Doc json

text \<open>The library calls that touch the keyring or the file system.\<close>

datatype call =
    KeyringSet | KeyringGet | KeyringDelete
  | PathExists | ReadText | Mkdir | OpenWrite | Write | Chmod

text \<open>
  The exceptions. A message is the fixed part of the message in the source (the path and
  the cause that the source appends are left out); an \<^verbatim>\<open>OSError\<close> that the library raises
  and the source does not wrap has the empty message. \<open>KeyringError\<close> is whatever the
  keyring library raises; the store turns it into \<^verbatim>\<open>OSError\<close>. In Python
  \<^verbatim>\<open>UnicodeDecodeError\<close> is a subclass of \<^verbatim>\<open>ValueError\<close>; here it is an error of its own.
\<close>

datatype error =
    ValueError string
  | OSError string
  | AttributeError
  | UnicodeDecodeError
  | RecursionError
  | KeyringError

record world =
  keyring :: "string \<times> string \<rightharpoonup> string"
  files :: "path \<rightharpoonup> content"
  trace :: "call list"

record store =
  service_name :: string
  base_dir :: path
  metadata_file :: path

subsection \<open>Strings\<close>

text \<open>\<^verbatim>\<open>str.isspace\<close> on one character, for the code points up to 255.\<close>

definition isspace :: "char \<Rightarrow> bool" where
  "isspace c \<longleftrightarrow> c \<in> set [CHR 0x09, CHR 0x0A, CHR 0x0B, CHR 0x0C, CHR 0x0D,
     CHR 0x1C, CHR 0x1D, CHR 0x1E, CHR 0x1F, CHR 0x20, CHR 0x85, CHR 0xA0]"

text \<open>\<^verbatim>\<open>str.strip()\<close>: leading and trailing whitespace removed.\<close>

definition strip :: "string \<Rightarrow> string" where
  "strip s = rev (dropWhile isspace (rev (dropWhile isspace s)))"

text \<open>\<^verbatim>\<open>s.replace(a, b)\<close> for single characters \<open>a\<close> and \<open>b\<close>.\<close>

definition replace :: "char \<Rightarrow> char \<Rightarrow> string \<Rightarrow> string" where
  "replace a b s = map (\<lambda>c. if c = a then b else c) s"

text \<open>Python's truth value of a value read from JSON.\<close>

fun truthy :: "json \<Rightarrow> bool" where
  "truthy JNull = False"
| "truthy (JBool b) = b"
| "truthy (JInt i) = (i \<noteq> 0)"
| "truthy (JFloat r) = (r \<noteq> 0)"
| "truthy JNonFinite = True"
| "truthy (JString s) = (s \<noteq> [])"
| "truthy (JArray xs) = (xs \<noteq> [])"
| "truthy (JObject kvs) = (kvs \<noteq> [])"

subsection \<open>Library calls\<close>

definition record_call :: "call \<Rightarrow> world \<Rightarrow> world" where
  "record_call c w = w\<lparr>trace := trace w @ [c]\<rparr>"

text \<open>The keyring: \<^verbatim>\<open>set_password\<close>, \<^verbatim>\<open>get_password\<close>, \<^verbatim>\<open>delete_password\<close>.\<close>

definition set_password ::
  "call set \<Rightarrow> world \<Rightarrow> string \<Rightarrow> string \<Rightarrow> string \<Rightarrow> (error + unit) \<times> world" where
  "set_password F w service name value =
     (let w1 = record_call KeyringSet w in
      if KeyringSet \<in> F then (Inl KeyringError, w1)
      else (Inr (), w1\<lparr>keyring := (keyring w1)((service, name) \<mapsto> value)\<rparr>))"

definition get_password ::
  "call set \<Rightarrow> world \<Rightarrow> string \<Rightarrow> string \<Rightarrow> (error + string option) \<times> world" where
  "get_password F w service name =
     (let w1 = record_call KeyringGet w in
      if KeyringGet \<in> F then (Inl KeyringError, w1)
      else (Inr (keyring w1 (service, name)), w1))"

text \<open>\<^verbatim>\<open>delete_password\<close> raises when there is no such password.\<close>

definition delete_password ::
  "call set \<Rightarrow> world \<Rightarrow> string \<Rightarrow> string \<Rightarrow> (error + unit) \<times> world" where
  "delete_password F w service name =
     (let w1 = record_call KeyringDelete w in
      if KeyringDelete \<in> F \<or> keyring w1 (service, name) = None then (Inl KeyringError, w1)
      else (Inr (), w1\<lparr>keyring := (keyring w1)((service, name) := None)\<rparr>))"

text \<open>
  \<^verbatim>\<open>Path.write_text\<close> opens the file for writing, which empties it, writes the text and
  closes the file. When the open fails the file is as before; when the write fails the
  file holds the empty text or a part of the new text, which is not JSON.
\<close>

definition write_text ::
  "call set \<Rightarrow> world \<Rightarrow> path \<Rightarrow> content \<Rightarrow> (error + unit) \<times> world" where
  "write_text F w p c =
     (let w1 = record_call OpenWrite w in
      if OpenWrite \<in> F then (Inl (OSError []), w1)
      else
        let w2 = record_call Write (w1\<lparr>files := (files w1)(p \<mapsto> NotJson)\<rparr>) in
        if Write \<in> F then (Inl (OSError []), w2)
        else (Inr (), w2\<lparr>files := (files w2)(p \<mapsto> c)\<rparr>))"

subsection \<open>The store\<close>

text \<open>
  \<^verbatim>\<open>__init__\<close>. \<open>home\<close> is \<^verbatim>\<open>Path.home()\<close>; \<open>dir\<close> is the \<^verbatim>\<open>base_dir\<close> argument
  (\<open>None\<close> when it is left out).
\<close>

definition init :: "path \<Rightarrow> string \<Rightarrow> path option \<Rightarrow> error + store" where
  "init home name dir =
     (if name = [] \<or> strip name = [] then Inl (ValueError ''service_name cannot be empty'')
      else
        let service = strip name;
            base = (case dir of None \<Rightarrow> home @ [''.secrets''] | Some d \<Rightarrow> d);
            safe_service_name = replace (CHR 0x5C) CHR ''_'' (replace CHR ''/'' CHR ''_'' service)
        in Inr \<lparr>service_name = service, base_dir = base,
                 metadata_file = base @ [''metadata_'' @ safe_service_name @ ''.json'']\<rparr>)"

definition setup_dirs :: "call set \<Rightarrow> store \<Rightarrow> world \<Rightarrow> (error + unit) \<times> world" where
  "setup_dirs F st w =
     (let w1 = record_call Mkdir w in
      if Mkdir \<in> F then (Inl (OSError ''Failed to create directory''), w1)
      else (Inr (), w1))"

text \<open>
  The \<^verbatim>\<open>try\<close> of \<^verbatim>\<open>_load_names\<close> on a file that the system lets it read. Of what
  \<^verbatim>\<open>read_text\<close> and \<^verbatim>\<open>json.loads\<close> raise, only \<^verbatim>\<open>JSONDecodeError\<close> is caught (and raised
  again as \<^verbatim>\<open>ValueError\<close>); \<^verbatim>\<open>UnicodeDecodeError\<close>, \<^verbatim>\<open>RecursionError\<close> and the
  \<^verbatim>\<open>ValueError\<close> of \<^verbatim>\<open>int\<close> pass both \<^verbatim>\<open>except\<close> clauses. A value that is not a dict has
  no \<^verbatim>\<open>get\<close>: its \<^verbatim>\<open>AttributeError\<close> is not caught either.
\<close>

fun names_of :: "content \<Rightarrow> error + json list" where
  "names_of Undecodable = Inl UnicodeDecodeError"
| "names_of NotJson = Inl (ValueError ''Invalid JSON in metadata file'')"
| "names_of TooDeep = Inl RecursionError"
| "names_of IntTooLong =
     Inl (ValueError ''Exceeds the limit (4300 digits) for integer string conversion'')"
| "names_of (Doc (JObject data)) =
     (case (case map_of data ''secrets'' of None \<Rightarrow> JArray [] | Some v \<Rightarrow> v) of
        JObject secrets \<Rightarrow> Inr (map (\<lambda>kv. JString (fst kv)) secrets)
      | JArray secrets \<Rightarrow> Inr secrets
      | _ \<Rightarrow> Inr [])"
| "names_of (Doc _) = Inl AttributeError"

text \<open>
  \<^verbatim>\<open>_load_names\<close>. \<^verbatim>\<open>Path.exists()\<close> stands before the \<^verbatim>\<open>try\<close>: it answers \<^verbatim>\<open>False\<close>
  when the file is not there and raises any other \<^verbatim>\<open>OSError\<close> of the system (such as
  \<^verbatim>\<open>PermissionError\<close>), which then leaves \<^verbatim>\<open>_load_names\<close> as it is.
\<close>

definition load_names :: "call set \<Rightarrow> store \<Rightarrow> world \<Rightarrow> (error + json list) \<times> world" where
  "load_names F st w =
     (let w1 = record_call PathExists w in
      if PathExists \<in> F then (Inl (OSError []), w1)
      else
        case files w1 (metadata_file st) of
          None \<Rightarrow> (Inr [], w1)
        | Some c \<Rightarrow>
            let w2 = record_call ReadText w1 in
            if ReadText \<in> F then (Inl (OSError ''Failed to read metadata file''), w2)
            else (names_of c, w2))"

text \<open>The document \<^verbatim>\<open>{"secrets": names}\<close> that \<^verbatim>\<open>_save_names\<close> dumps.\<close>

definition index_doc :: "json list \<Rightarrow> content" where
  "index_doc names = Doc (JObject [(''secrets'', JArray names)])"

definition save_names :: "call set \<Rightarrow> store \<Rightarrow> world \<Rightarrow> json list \<Rightarrow> (error + unit) \<times> world" where
  "save_names F st w names =
     (case setup_dirs F st w of
        (Inl e, w1) \<Rightarrow> (Inl e, w1)
      | (Inr _, w1) \<Rightarrow>
          (case write_text F w1 (metadata_file st) (index_doc names) of
             (Inl _, w2) \<Rightarrow> (Inl (OSError ''Failed to write metadata file''), w2)
           | (Inr _, w2) \<Rightarrow>
               let w3 = record_call Chmod w2 in
               if Chmod \<in> F then (Inl (OSError ''Failed to write metadata file''), w3)
               else (Inr (), w3)))"

definition set_secret ::
  "call set \<Rightarrow> store \<Rightarrow> world \<Rightarrow> string \<Rightarrow> string \<Rightarrow> (error + unit) \<times> world" where
  "set_secret F st w name value =
     (if name = [] \<or> strip name = [] then (Inl (ValueError ''Secret name cannot be empty''), w)
      else if value = [] then (Inl (ValueError ''Secret value cannot be empty''), w)
      else
        case set_password F w (service_name st) (strip name) value of
          (Inl _, w1) \<Rightarrow> (Inl (OSError ''Failed to store secret in keyring''), w1)
        | (Inr _, w1) \<Rightarrow>
            (case load_names F st w1 of
               (Inl e, w2) \<Rightarrow> (Inl e, w2)
             | (Inr names, w2) \<Rightarrow>
                 if JString name \<notin> set names then save_names F st w2 (names @ [JString name])
                 else (Inr (), w2)))"

definition get ::
  "call set \<Rightarrow> store \<Rightarrow> world \<Rightarrow> string \<Rightarrow> (error + string option) \<times> world" where
  "get F st w name =
     (if name = [] \<or> strip name = [] then (Inl (ValueError ''Secret name cannot be empty''), w)
      else
        case get_password F w (service_name st) (strip name) of
          (Inl _, w1) \<Rightarrow> (Inl (OSError ''Failed to retrieve secret from keyring''), w1)
        | (Inr v, w1) \<Rightarrow> (Inr v, w1))"

definition delete :: "call set \<Rightarrow> store \<Rightarrow> world \<Rightarrow> string \<Rightarrow> (error + bool) \<times> world" where
  "delete F st w name =
     (if name = [] \<or> strip name = [] then (Inl (ValueError ''Secret name cannot be empty''), w)
      else
        case get F st w name of
          (Inl e, w1) \<Rightarrow> (Inl e, w1)
        | (Inr None, w1) \<Rightarrow> (Inr False, w1)
        | (Inr (Some _), w1) \<Rightarrow>
            (case delete_password F w1 (service_name st) (strip name) of
               (Inl _, w2) \<Rightarrow> (Inl (OSError ''Failed to delete secret from keyring''), w2)
             | (Inr _, w2) \<Rightarrow>
                 (case load_names F st w2 of
                    (Inl e, w3) \<Rightarrow> (Inl e, w3)
                  | (Inr names, w3) \<Rightarrow>
                      if JString name \<in> set names then
                        (case save_names F st w3 (remove1 (JString name) names) of
                           (Inl e, w4) \<Rightarrow> (Inl e, w4)
                         | (Inr _, w4) \<Rightarrow> (Inr True, w4))
                      else (Inr True, w3))))"

definition list_names :: "call set \<Rightarrow> store \<Rightarrow> world \<Rightarrow> (error + json list) \<times> world" where
  "list_names F st w = load_names F st w"

text \<open>
  The loop of \<^verbatim>\<open>export_env\<close> over the loaded names, \<open>result\<close> being the dict built so far.
  A name that is not a \<^verbatim>\<open>str\<close> stops \<^verbatim>\<open>get\<close> at its first line: a falsy one raises
  \<^verbatim>\<open>ValueError\<close>, a truthy one has no \<^verbatim>\<open>strip\<close>.
\<close>

fun export_loop ::
  "call set \<Rightarrow> store \<Rightarrow> json list \<Rightarrow> (string \<rightharpoonup> string) \<Rightarrow> world
    \<Rightarrow> (error + (string \<rightharpoonup> string)) \<times> world" where
  "export_loop F st [] result w = (Inr result, w)"
| "export_loop F st (JString n # ns) result w =
     (case get F st w n of
        (Inl e, w1) \<Rightarrow> (Inl e, w1)
      | (Inr None, w1) \<Rightarrow> export_loop F st ns result w1
      | (Inr (Some v), w1) \<Rightarrow>
          export_loop F st ns (if v \<noteq> [] then result(n \<mapsto> v) else result) w1)"
| "export_loop F st (n # ns) result w =
     (if truthy n then (Inl AttributeError, w)
      else (Inl (ValueError ''Secret name cannot be empty''), w))"

definition export_env ::
  "call set \<Rightarrow> store \<Rightarrow> world \<Rightarrow> (error + (string \<rightharpoonup> string)) \<times> world" where
  "export_env F st w =
     (case load_names F st w of
        (Inl e, w1) \<Rightarrow> (Inl e, w1)
      | (Inr names, w1) \<Rightarrow> export_loop F st names Map.empty w1)"

subsection \<open>Notions used in the properties\<close>

text \<open>\<^verbatim>\<open>isinstance(v, list)\<close> and \<^verbatim>\<open>isinstance(v, dict)\<close>.\<close>

fun is_list :: "json \<Rightarrow> bool" where
  "is_list (JArray _) = True"
| "is_list _ = False"

fun is_dict :: "json \<Rightarrow> bool" where
  "is_dict (JObject _) = True"
| "is_dict _ = False"

text \<open>
  The invariant of the index: when the metadata file loads, no entry is listed twice.
  \<^verbatim>\<open>set\<close> appends a name only when the list does not hold it and \<^verbatim>\<open>delete\<close> takes one
  occurrence out, so both rely on it and both keep it.
\<close>

definition index_distinct :: "store \<Rightarrow> world \<Rightarrow> bool" where
  "index_distinct st w =
     (case fst (list_names {} st w) of Inl _ \<Rightarrow> True | Inr names \<Rightarrow> distinct names)"

text \<open>
  The worlds a store can be in. It starts in a world where its metadata file does not
  exist, or holds a dict of names in the old format (the keys of a Python dict are
  distinct); then its methods are called, whatever library calls fail, and the keyring may
  be changed from outside.
\<close>

inductive reachable :: "store \<Rightarrow> world \<Rightarrow> bool" for st :: store where
  start: "files w (metadata_file st) = None \<Longrightarrow> reachable st w"
| start_legacy: "files w (metadata_file st) = Some (Doc (JObject data)) \<Longrightarrow>
     map_of data ''secrets'' = Some (JObject secrets) \<Longrightarrow> distinct (map fst secrets) \<Longrightarrow>
     reachable st w"
| after_set: "reachable st w \<Longrightarrow> reachable st (snd (set_secret F st w name value))"
| after_get: "reachable st w \<Longrightarrow> reachable st (snd (get F st w name))"
| after_delete: "reachable st w \<Longrightarrow> reachable st (snd (delete F st w name))"
| after_list_names: "reachable st w \<Longrightarrow> reachable st (snd (list_names F st w))"
| after_export_env: "reachable st w \<Longrightarrow> reachable st (snd (export_env F st w))"
| keyring_changed: "reachable st w \<Longrightarrow> reachable st (w\<lparr>keyring := k\<rparr>)"

text \<open>The store of the fixture in \<^verbatim>\<open>tests/test_storage.py\<close> and a world with nothing in it.\<close>

definition temp_store :: store where
  "temp_store = \<lparr>service_name = ''test-service'', base_dir = [''tmp'', ''.secrets''],
     metadata_file = [''tmp'', ''.secrets'', ''metadata_test-service.json'']\<rparr>"

definition fresh :: world where
  "fresh = \<lparr>keyring = Map.empty, files = Map.empty, trace = []\<rparr>"

section \<open>Properties\<close>

subsection \<open>Strings and library calls\<close>

lemma strip_Nil: "strip [] = []"
  by (simp add: strip_def)

lemma init_temp_store:
  "init [''home''] ''test-service'' (Some [''tmp'', ''.secrets'']) = Inr temp_store"
  by (simp add: init_def strip_def isspace_def replace_def temp_store_def)

lemma dropWhile_strip: "dropWhile isspace (strip s) = strip s"
proof (cases "strip s")
  case Nil
  then show ?thesis by simp
next
  case (Cons c cs)
  define t where "t = dropWhile isspace s"
  have "strip s = rev (dropWhile isspace (rev t))"
    by (simp add: strip_def t_def)
  have pre: "\<exists>zs. t = strip s @ zs"
  proof -
    have "rev t = takeWhile isspace (rev t) @ dropWhile isspace (rev t)" by simp
    then have "t = rev (dropWhile isspace (rev t)) @ rev (takeWhile isspace (rev t))"
      by (metis rev_append rev_rev_ident)
    then show ?thesis by (metis strip_def t_def)
  qed
  then obtain zs where t: "t = c # cs @ zs" using Cons by auto
  then have "\<not> isspace c"
    using t_def by (metis hd_dropWhile list.sel(1) list.distinct(1))
  then show ?thesis using Cons by simp
qed

lemma strip_idem: "strip (strip s) = strip s"
proof -
  have "strip (strip s) = rev (dropWhile isspace (rev (strip s)))"
    by (simp add: strip_def[of "strip s"] dropWhile_strip)
  also have "\<dots> = rev (dropWhile isspace (dropWhile isspace (rev (dropWhile isspace s))))"
    by (simp add: strip_def)
  also have "\<dots> = strip s"
    by (simp add: strip_def)
  finally show ?thesis .
qed

lemma names_of_index_doc: "names_of (index_doc names) = Inr names"
  by (simp add: index_doc_def)

lemma record_call_simps:
  "keyring (record_call c w) = keyring w"
  "files (record_call c w) = files w"
  "trace (record_call c w) = trace w @ [c]"
  by (simp_all add: record_call_def)

lemma load_fst:
  "fst (load_names F st w) =
     (if PathExists \<in> F then Inl (OSError [])
      else case files w (metadata_file st) of
        None \<Rightarrow> Inr []
      | Some c \<Rightarrow> if ReadText \<in> F then Inl (OSError ''Failed to read metadata file'')
                  else names_of c)"
  by (simp add: load_names_def record_call_def Let_def split: option.split)

lemma load_snd:
  "snd (load_names F st w) =
     (if PathExists \<in> F then record_call PathExists w
      else case files w (metadata_file st) of
        None \<Rightarrow> record_call PathExists w
      | Some c \<Rightarrow> record_call ReadText (record_call PathExists w))"
  by (simp add: load_names_def record_call_def Let_def split: option.split)

lemma load_frame:
  "keyring (snd (load_names F st w)) = keyring w"
  "files (snd (load_names F st w)) = files w"
  by (simp_all add: load_snd record_call_simps split: option.split)

lemma save_fst:
  "fst (save_names F st w names) =
     (if Mkdir \<in> F then Inl (OSError ''Failed to create directory'')
      else if OpenWrite \<in> F \<or> Write \<in> F \<or> Chmod \<in> F
        then Inl (OSError ''Failed to write metadata file'')
      else Inr ())"
  by (simp add: save_names_def setup_dirs_def write_text_def Let_def)

lemma save_files:
  "files (snd (save_names F st w names)) =
     (if Mkdir \<in> F \<or> OpenWrite \<in> F then files w
      else if Write \<in> F then (files w)(metadata_file st \<mapsto> NotJson)
      else (files w)(metadata_file st \<mapsto> index_doc names))"
  by (simp add: save_names_def setup_dirs_def write_text_def Let_def record_call_def)

lemma save_keyring: "keyring (snd (save_names F st w names)) = keyring w"
  by (simp add: save_names_def setup_dirs_def write_text_def Let_def record_call_def)

lemma save_trace:
  "trace (snd (save_names F st w names)) =
     trace w @ (if Mkdir \<in> F then [Mkdir]
                else if OpenWrite \<in> F then [Mkdir, OpenWrite]
                else if Write \<in> F then [Mkdir, OpenWrite, Write]
                else [Mkdir, OpenWrite, Write, Chmod])"
  by (simp add: save_names_def setup_dirs_def write_text_def Let_def record_call_def)

subsection \<open>Results and effects of the methods\<close>

lemma get_fst:
  "fst (get F st w name) =
     (if name = [] \<or> strip name = [] then Inl (ValueError ''Secret name cannot be empty'')
      else if KeyringGet \<in> F then Inl (OSError ''Failed to retrieve secret from keyring'')
      else Inr (keyring w (service_name st, strip name)))"
  by (simp add: get_def get_password_def record_call_def Let_def)

lemma get_snd:
  "snd (get F st w name) =
     (if name = [] \<or> strip name = [] then w else record_call KeyringGet w)"
  by (simp add: get_def get_password_def Let_def)

lemma get_strip: "get F st w (strip name) = get F st w name"
proof -
  have "strip [] = []" by (simp add: strip_def)
  then have "(strip name = [] \<or> strip (strip name) = []) = (name = [] \<or> strip name = [])"
    by (auto simp add: strip_idem)
  then show ?thesis by (simp add: get_def strip_idem)
qed

lemma set_fst:
  "fst (set_secret F st w name value) =
     (if name = [] \<or> strip name = [] then Inl (ValueError ''Secret name cannot be empty'')
      else if value = [] then Inl (ValueError ''Secret value cannot be empty'')
      else if KeyringSet \<in> F then Inl (OSError ''Failed to store secret in keyring'')
      else case fst (load_names F st w) of
             Inl e \<Rightarrow> Inl e
           | Inr names \<Rightarrow>
               if JString name \<notin> set names
               then fst (save_names F st w (names @ [JString name]))
               else Inr ())"
  by (simp add: set_secret_def set_password_def Let_def split_beta load_fst load_snd save_fst
      record_call_def split: sum.split option.split)

lemma set_keyring:
  "keyring (snd (set_secret F st w name value)) =
     (if name = [] \<or> strip name = [] \<or> value = [] \<or> KeyringSet \<in> F then keyring w
      else (keyring w)((service_name st, strip name) \<mapsto> value))"
  by (simp add: set_secret_def set_password_def Let_def split_beta load_snd save_keyring
      record_call_def split: sum.split option.split)

lemma set_files:
  "files (snd (set_secret F st w name value)) =
     (if name = [] \<or> strip name = [] \<or> value = [] \<or> KeyringSet \<in> F then files w
      else case fst (load_names F st w) of
             Inl e \<Rightarrow> files w
           | Inr names \<Rightarrow>
               if JString name \<notin> set names
               then files (snd (save_names F st w (names @ [JString name])))
               else files w)"
  by (simp add: set_secret_def set_password_def Let_def split_beta load_fst load_snd save_files
      record_call_def split: sum.split option.split)

lemma delete_fst:
  "fst (delete F st w name) =
     (if name = [] \<or> strip name = [] then Inl (ValueError ''Secret name cannot be empty'')
      else if KeyringGet \<in> F then Inl (OSError ''Failed to retrieve secret from keyring'')
      else if keyring w (service_name st, strip name) = None then Inr False
      else if KeyringDelete \<in> F then Inl (OSError ''Failed to delete secret from keyring'')
      else case fst (load_names F st w) of
             Inl e \<Rightarrow> Inl e
           | Inr names \<Rightarrow>
               if JString name \<in> set names
               then (case fst (save_names F st w (remove1 (JString name) names)) of
                       Inl e \<Rightarrow> Inl e | Inr _ \<Rightarrow> Inr True)
               else Inr True)"
  by (simp add: delete_def get_def get_password_def delete_password_def Let_def split_beta
      load_fst load_snd save_fst record_call_def split: sum.split option.split)

lemma delete_keyring:
  "keyring (snd (delete F st w name)) =
     (if name = [] \<or> strip name = [] \<or> KeyringGet \<in> F \<or> KeyringDelete \<in> F then keyring w
      else (keyring w)((service_name st, strip name) := None))"
  by (auto simp add: delete_def get_def get_password_def delete_password_def Let_def split_beta
      load_snd save_keyring record_call_def split: sum.split option.split)

lemma delete_files:
  "files (snd (delete F st w name)) =
     (if name = [] \<or> strip name = [] \<or> KeyringGet \<in> F
         \<or> keyring w (service_name st, strip name) = None \<or> KeyringDelete \<in> F then files w
      else case fst (load_names F st w) of
             Inl e \<Rightarrow> files w
           | Inr names \<Rightarrow>
               if JString name \<in> set names
               then files (snd (save_names F st w (remove1 (JString name) names)))
               else files w)"
  by (auto simp add: delete_def get_def get_password_def delete_password_def Let_def split_beta
      load_fst load_snd save_files record_call_def split: sum.split option.split)

subsection \<open>The index invariant\<close>

lemma count_list_distinct: "distinct xs \<Longrightarrow> x \<in> set xs \<Longrightarrow> count_list xs x = 1"
  by (induction xs) auto

lemma count_list_absent: "x \<notin> set xs \<Longrightarrow> count_list xs x = 0"
  by (induction xs) auto

lemma load_without_faults:
  "fst (load_names F st w) = Inr names \<Longrightarrow> fst (load_names {} st w) = Inr names"
  by (auto simp add: load_fst split: option.splits if_splits)

lemma load_same_files:
  "files w' = files w \<Longrightarrow> fst (load_names F st w') = fst (load_names F st w)"
  by (simp add: load_fst)

lemma load_after_write:
  "PathExists \<notin> G \<and> ReadText \<notin> G \<Longrightarrow> files w' = (files w)(metadata_file st \<mapsto> index_doc names) \<Longrightarrow>
   fst (load_names G st w') = Inr names"
  by (simp add: load_fst names_of_index_doc)

lemma load_retry:
  "fst (load_names F st w) = Inr names \<Longrightarrow> PathExists \<notin> G \<and> ReadText \<notin> G \<Longrightarrow>
   fst (load_names G st w) = Inr names"
  by (auto simp add: load_fst split: option.splits if_splits)

lemma load_agree:
  "fst (load_names F st w) = Inr a \<Longrightarrow> fst (load_names G st w) = Inr b \<Longrightarrow> a = b"
  by (auto simp add: load_fst split: option.splits if_splits)

lemma index_distinctD:
  "index_distinct st w \<Longrightarrow> fst (load_names F st w) = Inr names \<Longrightarrow> distinct names"
  using load_without_faults[of F st w names] by (simp add: index_distinct_def list_names_def)

lemma index_distinct_files:
  "files w' = files w \<Longrightarrow> index_distinct st w' = index_distinct st w"
  by (simp add: index_distinct_def list_names_def load_fst)

lemma index_distinct_fresh: "files w (metadata_file st) = None \<Longrightarrow> index_distinct st w"
  by (simp add: index_distinct_def list_names_def load_fst)

lemma index_distinct_written:
  "files w' = (files w)(metadata_file st \<mapsto> c) \<Longrightarrow>
   index_distinct st w' = (case names_of c of Inl _ \<Rightarrow> True | Inr names \<Rightarrow> distinct names)"
  by (simp add: index_distinct_def list_names_def load_fst)

lemma save_preserves_distinct:
  "distinct names \<Longrightarrow> index_distinct st w \<Longrightarrow>
   index_distinct st (snd (save_names F st w names))"
proof -
  assume d: "distinct names" and inv: "index_distinct st w"
  let ?w' = "snd (save_names F st w names)"
  have "files ?w' = files w
    \<or> files ?w' = (files w)(metadata_file st \<mapsto> NotJson)
    \<or> files ?w' = (files w)(metadata_file st \<mapsto> index_doc names)"
    by (simp add: save_files)
  then show ?thesis
  proof (elim disjE)
    assume "files ?w' = files w"
    then show ?thesis using inv index_distinct_files by blast
  next
    assume "files ?w' = (files w)(metadata_file st \<mapsto> NotJson)"
    then show ?thesis using index_distinct_written[of ?w' w st NotJson] by simp
  next
    assume "files ?w' = (files w)(metadata_file st \<mapsto> index_doc names)"
    then show ?thesis
      using d index_distinct_written[of ?w' w st "index_doc names"]
      by (simp add: names_of_index_doc)
  qed
qed

lemma set_preserves_distinct:
  assumes "index_distinct st w"
  shows "index_distinct st (snd (set_secret F st w name value))"
proof (cases "fst (load_names F st w)")
  case (Inl e)
  then have "files (snd (set_secret F st w name value)) = files w"
    by (simp add: set_files)
  then show ?thesis using assms index_distinct_files by blast
next
  case (Inr names)
  then have d: "distinct names" using assms by (rule index_distinctD[rotated])
  show ?thesis
  proof (cases "files (snd (set_secret F st w name value)) = files w")
    case True
    then show ?thesis using assms index_distinct_files by blast
  next
    case False
    then have f: "files (snd (set_secret F st w name value)) =
        files (snd (save_names F st w (names @ [JString name])))"
      and n: "JString name \<notin> set names"
      using Inr by (auto simp add: set_files split: if_splits)
    from d n have "distinct (names @ [JString name])" by simp
    then have "index_distinct st (snd (save_names F st w (names @ [JString name])))"
      using assms by (rule save_preserves_distinct)
    then show ?thesis using f index_distinct_files by metis
  qed
qed

lemma delete_preserves_distinct:
  assumes "index_distinct st w"
  shows "index_distinct st (snd (delete F st w name))"
proof (cases "fst (load_names F st w)")
  case (Inl e)
  then have "files (snd (delete F st w name)) = files w"
    by (simp add: delete_files)
  then show ?thesis using assms index_distinct_files by blast
next
  case (Inr names)
  then have d: "distinct names" using assms by (rule index_distinctD[rotated])
  show ?thesis
  proof (cases "files (snd (delete F st w name)) = files w")
    case True
    then show ?thesis using assms index_distinct_files by blast
  next
    case False
    then have f: "files (snd (delete F st w name)) =
        files (snd (save_names F st w (remove1 (JString name) names)))"
      using Inr by (auto simp add: delete_files split: if_splits)
    from d have "distinct (remove1 (JString name) names)" by simp
    then have "index_distinct st (snd (save_names F st w (remove1 (JString name) names)))"
      using assms by (rule save_preserves_distinct)
    then show ?thesis using f index_distinct_files by metis
  qed
qed

text \<open>The invariant holds in every world the store can be in.\<close>

lemma get_frame:
  "keyring (snd (get F st w name)) = keyring w"
  "files (snd (get F st w name)) = files w"
  by (simp_all add: get_snd record_call_simps)

lemma export_loop_files: "files (snd (export_loop F st ns result w)) = files w"
proof (induction F st ns result w rule: export_loop.induct)
  case (2 F st n ns result w)
  then show ?case
    using get_frame(2)[of F st w n]
    by (cases "get F st w n") (auto split: sum.splits option.splits)
qed simp_all

lemma export_env_files: "files (snd (export_env F st w)) = files w"
  by (simp add: export_env_def split_beta export_loop_files load_frame split: sum.splits)

lemma reachable_index_distinct: "reachable st w \<Longrightarrow> index_distinct st w"
proof (induction rule: reachable.induct)
  case (start w)
  then show ?case by (rule index_distinct_fresh)
next
  case (start_legacy w data secrets)
  have "inj JString" by (simp add: inj_def)
  then have "distinct (map (\<lambda>kv. JString (fst kv)) secrets)"
    using start_legacy(3) distinct_map[of JString "map fst secrets"]
    by (simp add: comp_def inj_on_def)
  then show ?case
    using start_legacy(1,2) by (simp add: index_distinct_def list_names_def load_fst)
next
  case (after_set w F name "value")
  then show ?case by (simp add: set_preserves_distinct)
next
  case (after_get w F name)
  then show ?case using index_distinct_files[of "snd (get F st w name)" w st]
    by (simp add: get_frame)
next
  case (after_delete w F name)
  then show ?case by (simp add: delete_preserves_distinct)
next
  case (after_list_names w F)
  then show ?case using index_distinct_files[of "snd (list_names F st w)" w st]
    by (simp add: list_names_def load_frame)
next
  case (after_export_env w F)
  then show ?case using index_distinct_files[of "snd (export_env F st w)" w st]
    by (simp add: export_env_files)
next
  case (keyring_changed w k)
  then show ?case using index_distinct_files[of "w\<lparr>keyring := k\<rparr>" w st] by simp
qed

subsection \<open>After a call that returns\<close>

text \<open>
  A \<^verbatim>\<open>set\<close> that returns has stored the value under the stripped name, and the index
  is as before when it listed the name, and else rewritten with the name appended.
\<close>

lemma set_succeeds_cases:
  assumes ok: "fst (set_secret F st w name value) = Inr ()"
  obtains names where
    "name \<noteq> []" "strip name \<noteq> []" "value \<noteq> []"
    "fst (load_names F st w) = Inr names"
    "keyring (snd (set_secret F st w name value)) =
       (keyring w)((service_name st, strip name) \<mapsto> value)"
    "JString name \<in> set names \<and> files (snd (set_secret F st w name value)) = files w
     \<or> JString name \<notin> set names \<and> files (snd (set_secret F st w name value)) =
         (files w)(metadata_file st \<mapsto> index_doc (names @ [JString name]))"
proof -
  from ok have v: "name \<noteq> []" "strip name \<noteq> []" "value \<noteq> []" "KeyringSet \<notin> F"
    by (auto simp add: set_fst split: if_splits)
  from ok v obtain names where l: "fst (load_names F st w) = Inr names"
    by (auto simp add: set_fst split: sum.splits)
  have k: "keyring (snd (set_secret F st w name value)) =
       (keyring w)((service_name st, strip name) \<mapsto> value)"
    using v by (simp add: set_keyring)
  have "JString name \<in> set names \<and> files (snd (set_secret F st w name value)) = files w
     \<or> JString name \<notin> set names \<and> files (snd (set_secret F st w name value)) =
         (files w)(metadata_file st \<mapsto> index_doc (names @ [JString name]))"
    using ok v l by (auto simp add: set_fst set_files save_fst save_files split: if_splits)
  then show thesis by (rule that[OF v(1) v(2) v(3) l k])
qed

text \<open>
  Nothing but a failing library call or an index that does not load stops \<^verbatim>\<open>set\<close>.
\<close>

lemma set_returns:
  assumes "strip name \<noteq> []" and "value \<noteq> []" and "fst (load_names {} st w) = Inr names"
  shows "fst (set_secret {} st w name value) = Inr ()"
proof -
  from assms(1) have "name \<noteq> []" by (auto simp add: strip_Nil)
  then show ?thesis using assms by (simp add: set_fst save_fst)
qed

lemma set_post:
  assumes ok: "fst (set_secret F st w name value) = Inr ()"
    and G: "KeyringGet \<notin> G" "PathExists \<notin> G \<and> ReadText \<notin> G"
  shows "fst (get G st (snd (set_secret F st w name value)) name) = Inr (Some value)
    \<and> (\<exists>names. fst (list_names G st (snd (set_secret F st w name value))) = Inr names
          \<and> JString name \<in> set names
          \<and> (index_distinct st w \<longrightarrow> count_list names (JString name) = 1))"
proof -
  let ?w' = "snd (set_secret F st w name value)"
  from ok obtain names where v: "name \<noteq> []" "strip name \<noteq> []"
    and l: "fst (load_names F st w) = Inr names"
    and k: "keyring ?w' = (keyring w)((service_name st, strip name) \<mapsto> value)"
    and f: "JString name \<in> set names \<and> files ?w' = files w
     \<or> JString name \<notin> set names \<and> files ?w' =
         (files w)(metadata_file st \<mapsto> index_doc (names @ [JString name]))"
    by (rule set_succeeds_cases)
  have g: "fst (get G st ?w' name) = Inr (Some value)"
    using v k G by (simp add: get_fst)
  have d: "index_distinct st w \<longrightarrow> distinct names"
    using l index_distinctD by blast
  from f have "\<exists>ns. fst (load_names G st ?w') = Inr ns \<and> JString name \<in> set ns
      \<and> (index_distinct st w \<longrightarrow> count_list ns (JString name) = 1)"
  proof
    assume a: "JString name \<in> set names \<and> files ?w' = files w"
    then have "fst (load_names G st ?w') = Inr names"
      using l G load_retry[of F st w names G] load_same_files[of ?w' w G st] by simp
    moreover have "index_distinct st w \<longrightarrow> count_list names (JString name) = 1"
      using d a by (simp add: count_list_distinct)
    ultimately show ?thesis using a by blast
  next
    assume a: "JString name \<notin> set names \<and> files ?w' =
         (files w)(metadata_file st \<mapsto> index_doc (names @ [JString name]))"
    then have "fst (load_names G st ?w') = Inr (names @ [JString name])"
      using G by (simp add: load_after_write)
    moreover have "count_list (names @ [JString name]) (JString name) = 1"
      using a by (simp add: count_list_absent)
    ultimately show ?thesis by auto
  qed
  with g show ?thesis by (simp add: list_names_def)
qed

lemma set_present:
  assumes "fst (load_names F st w) = Inr names" and "JString name \<in> set names"
    and "fst (set_secret F st w name value) = Inr ()"
  shows "files (snd (set_secret F st w name value)) = files w"
    and "trace (snd (set_secret F st w name value)) = trace w @ [KeyringSet, PathExists, ReadText]"
proof -
  from assms(3) have v: "name \<noteq> []" "strip name \<noteq> []" "value \<noteq> []" "KeyringSet \<notin> F"
    by (auto simp add: set_fst split: if_splits)
  show "files (snd (set_secret F st w name value)) = files w"
    using assms(1,2) by (simp add: set_files)
  from assms(1,2) obtain c where c: "files w (metadata_file st) = Some c"
    "PathExists \<notin> F" "ReadText \<notin> F" "names_of c = Inr names"
    by (auto simp add: load_fst split: option.splits if_splits)
  then show "trace (snd (set_secret F st w name value)) =
      trace w @ [KeyringSet, PathExists, ReadText]"
    using v assms(2)
    by (simp add: set_secret_def set_password_def load_names_def Let_def record_call_def)
qed

lemma set_lists_name:
  assumes ok: "fst (set_secret F st w name value) = Inr ()"
    and l': "fst (load_names G st (snd (set_secret F st w name value))) = Inr ns"
  shows "JString name \<in> set ns"
proof -
  let ?w' = "snd (set_secret F st w name value)"
  from ok obtain names where l: "fst (load_names F st w) = Inr names"
    and f: "JString name \<in> set names \<and> files ?w' = files w
     \<or> JString name \<notin> set names \<and> files ?w' =
         (files w)(metadata_file st \<mapsto> index_doc (names @ [JString name]))"
    by (rule set_succeeds_cases)
  from f show ?thesis
  proof
    assume a: "JString name \<in> set names \<and> files ?w' = files w"
    then have "fst (load_names G st w) = Inr ns"
      using l' load_same_files[of ?w' w G st] by simp
    with l have "names = ns" by (rule load_agree)
    with a show ?thesis by simp
  next
    assume a: "JString name \<notin> set names \<and> files ?w' =
         (files w)(metadata_file st \<mapsto> index_doc (names @ [JString name]))"
    then have "ns = names @ [JString name]"
      using l' by (auto simp add: load_fst names_of_index_doc split: if_splits)
    then show ?thesis by simp
  qed
qed

lemma set_index:
  assumes ok: "fst (set_secret F st w name value) = Inr ()"
    and G: "PathExists \<notin> G \<and> ReadText \<notin> G"
  shows "\<exists>names0. fst (load_names F st w) = Inr names0
    \<and> fst (load_names G st (snd (set_secret F st w name value))) =
        Inr (if JString name \<in> set names0 then names0 else names0 @ [JString name])"
proof -
  let ?w' = "snd (set_secret F st w name value)"
  from ok obtain names where l: "fst (load_names F st w) = Inr names"
    and f: "JString name \<in> set names \<and> files ?w' = files w
     \<or> JString name \<notin> set names \<and> files ?w' =
         (files w)(metadata_file st \<mapsto> index_doc (names @ [JString name]))"
    by (rule set_succeeds_cases)
  from f have "fst (load_names G st ?w') =
      Inr (if JString name \<in> set names then names else names @ [JString name])"
  proof
    assume a: "JString name \<in> set names \<and> files ?w' = files w"
    then show ?thesis
      using l G load_retry[of F st w names G] load_same_files[of ?w' w G st] by simp
  next
    assume a: "JString name \<notin> set names \<and> files ?w' =
         (files w)(metadata_file st \<mapsto> index_doc (names @ [JString name]))"
    then show ?thesis using G by (simp add: load_after_write)
  qed
  with l show ?thesis by blast
qed

lemma delete_absent:
  assumes "fst (get F st w name) = Inr None"
  shows "delete F st w name = (Inr False, record_call KeyringGet w)"
proof -
  from assms have "name \<noteq> []" "strip name \<noteq> []" "KeyringGet \<notin> F"
    and "keyring w (service_name st, strip name) = None"
    by (auto simp add: get_fst split: if_splits)
  then show ?thesis
    by (simp add: delete_def get_def get_password_def Let_def record_call_def)
qed

lemma delete_present_returns:
  assumes "fst (get {} st w name) = Inr (Some v)" and "fst (load_names {} st w) = Inr names0"
  shows "fst (delete {} st w name) = Inr True"
proof -
  from assms(1) have "name \<noteq> []" "strip name \<noteq> []"
    "keyring w (service_name st, strip name) = Some v"
    by (auto simp add: get_fst split: if_splits)
  then show ?thesis using assms(2) by (simp add: delete_fst save_fst)
qed

lemma delete_present_post:
  assumes g: "fst (get F st w name) = Inr (Some v)"
    and ok: "fst (delete F st w name) = Inr b"
    and G: "KeyringGet \<notin> G" "PathExists \<notin> G \<and> ReadText \<notin> G"
  shows "b \<and> fst (get G st (snd (delete F st w name)) name) = Inr None
    \<and> (\<exists>names. fst (list_names G st (snd (delete F st w name))) = Inr names
          \<and> (index_distinct st w \<longrightarrow> JString name \<notin> set names))"
proof -
  let ?w' = "snd (delete F st w name)"
  from g have v: "name \<noteq> []" "strip name \<noteq> []" "KeyringGet \<notin> F"
    and k: "keyring w (service_name st, strip name) \<noteq> None"
    by (auto simp add: get_fst split: if_splits)
  from ok v k have d: "KeyringDelete \<notin> F"
    by (auto simp add: delete_fst split: if_splits)
  from ok v k d obtain names where l: "fst (load_names F st w) = Inr names"
    by (auto simp add: delete_fst split: sum.splits)
  have dist: "index_distinct st w \<longrightarrow> distinct names"
    using l index_distinctD by blast
  have b: "b" using ok v k d l by (auto simp add: delete_fst split: if_splits sum.splits)
  have "keyring ?w' = (keyring w)((service_name st, strip name) := None)"
    using v d by (simp add: delete_keyring)
  then have g': "fst (get G st ?w' name) = Inr None"
    using v G by (simp add: get_fst)
  have "\<exists>ns. fst (load_names G st ?w') = Inr ns
      \<and> (index_distinct st w \<longrightarrow> JString name \<notin> set ns)"
  proof (cases "JString name \<in> set names")
    case True
    then have "fst (save_names F st w (remove1 (JString name) names)) = Inr ()"
      using ok v k d l by (auto simp add: delete_fst split: if_splits sum.splits)
    then have "files (snd (save_names F st w (remove1 (JString name) names))) =
        (files w)(metadata_file st \<mapsto> index_doc (remove1 (JString name) names))"
      by (auto simp add: save_fst save_files split: if_splits)
    then have "files ?w' =
        (files w)(metadata_file st \<mapsto> index_doc (remove1 (JString name) names))"
      using True v k d l by (auto simp add: delete_files)
    then have "fst (load_names G st ?w') = Inr (remove1 (JString name) names)"
      using G by (simp add: load_after_write)
    moreover have "index_distinct st w \<longrightarrow> JString name \<notin> set (remove1 (JString name) names)"
      using dist by simp
    ultimately show ?thesis by blast
  next
    case False
    then have "files ?w' = files w" using l by (simp add: delete_files)
    then have "fst (load_names G st ?w') = Inr names"
      using l G load_retry[of F st w names G] load_same_files[of ?w' w G st] by simp
    with False show ?thesis by blast
  qed
  with b g' show ?thesis by (simp add: list_names_def)
qed

lemma export_loop_result:
  assumes "KeyringGet \<notin> F" and "\<forall>n \<in> set ns. \<exists>s. n = JString s \<and> strip s \<noteq> []"
  shows "fst (export_loop F st ns result w) =
    Inr (\<lambda>s. if JString s \<in> set ns
              then (case keyring w (service_name st, strip s) of
                      None \<Rightarrow> result s
                    | Some v \<Rightarrow> if v = [] then result s else Some v)
              else result s)"
  using assms(2)
proof (induction ns arbitrary: result w)
  case Nil
  then show ?case by simp
next
  case (Cons n ns)
  then obtain s where n: "n = JString s" and s: "strip s \<noteq> []" by auto
  then have s': "s \<noteq> []" by (auto simp add: strip_def)
  have g: "get F st w s = (Inr (keyring w (service_name st, strip s)), record_call KeyringGet w)"
    using s s' assms(1) by (simp add: get_def get_password_def Let_def record_call_def)
  have rest: "\<forall>n \<in> set ns. \<exists>s. n = JString s \<and> strip s \<noteq> []" using Cons.prems by simp
  show ?case
  proof (cases "keyring w (service_name st, strip s)")
    case None
    then show ?thesis
      using Cons.IH[OF rest, of result "record_call KeyringGet w"] g n
      by (auto simp add: record_call_simps fun_eq_iff split: option.splits)
  next
    case (Some v)
    then show ?thesis
      using Cons.IH[OF rest, of "if v \<noteq> [] then result(s \<mapsto> v) else result"
          "record_call KeyringGet w"] g n
      by (auto simp add: record_call_simps fun_eq_iff split: option.splits)
  qed
qed

text \<open>
  The definitions to unfold when a method is run on a given world.
\<close>

lemmas run_defs = set_secret_def get_def delete_def list_names_def load_names_def save_names_def
  setup_dirs_def write_text_def set_password_def get_password_def delete_password_def
  record_call_def index_doc_def temp_store_def fresh_def strip_def isspace_def
  index_distinct_def export_env_def Let_def

subsection \<open>The claims\<close>

text \<open>
  C1. After \<^verbatim>\<open>set(name, value)\<close> has returned (which it does only for a name that is not
  blank and a value that is not empty), a \<^verbatim>\<open>get(name)\<close> whose keyring read does not fail
  returns exactly \<open>value\<close>, and \<^verbatim>\<open>list_names()\<close>, when \<^verbatim>\<open>exists\<close> and the read do not fail, returns a
  list that holds \<open>name\<close>: exactly once when the index listed no entry twice before the
  call, as it does in every world the store can be in (\<open>reachable_index_distinct\<close>).
\<close>

theorem set_then_get_and_list:
  assumes "set_secret F st w name value = (Inr (), w')"
    and "KeyringGet \<notin> G" and "PathExists \<notin> G \<and> ReadText \<notin> G"
  shows "fst (get G st w' name) = Inr (Some value)
    \<and> (\<exists>names. fst (list_names G st w') = Inr names
          \<and> JString name \<in> set names
          \<and> (index_distinct st w \<longrightarrow> count_list names (JString name) = 1))"
  using set_post[of F st w name "value" G] assms by simp

theorem set_then_get_and_list_witness:
  "index_distinct temp_store fresh
   \<and> set_secret {} temp_store fresh ''TEST_KEY'' ''test_value'' =
       (Inr (), \<lparr>keyring = [(''test-service'', ''TEST_KEY'') \<mapsto> ''test_value''],
                 files = [metadata_file temp_store \<mapsto> index_doc [JString ''TEST_KEY'']],
                 trace = [KeyringSet, PathExists, Mkdir, OpenWrite, Write, Chmod]\<rparr>)
   \<and> fst (get {} temp_store
        \<lparr>keyring = [(''test-service'', ''TEST_KEY'') \<mapsto> ''test_value''],
         files = [metadata_file temp_store \<mapsto> index_doc [JString ''TEST_KEY'']],
         trace = [KeyringSet, PathExists, Mkdir, OpenWrite, Write, Chmod]\<rparr> ''TEST_KEY'')
       = Inr (Some ''test_value'')
   \<and> (\<exists>names. fst (list_names {} temp_store
        \<lparr>keyring = [(''test-service'', ''TEST_KEY'') \<mapsto> ''test_value''],
         files = [metadata_file temp_store \<mapsto> index_doc [JString ''TEST_KEY'']],
         trace = [KeyringSet, PathExists, Mkdir, OpenWrite, Write, Chmod]\<rparr>) = Inr names
        \<and> count_list names (JString ''TEST_KEY'') = 1)"
proof -
  have inv: "index_distinct temp_store fresh"
    by (simp add: run_defs)
  have run: "set_secret {} temp_store fresh ''TEST_KEY'' ''test_value'' =
       (Inr (), \<lparr>keyring = [(''test-service'', ''TEST_KEY'') \<mapsto> ''test_value''],
                 files = [metadata_file temp_store \<mapsto> index_doc [JString ''TEST_KEY'']],
                 trace = [KeyringSet, PathExists, Mkdir, OpenWrite, Write, Chmod]\<rparr>)"
    by (simp add: run_defs)
  show ?thesis
    using inv run set_then_get_and_list[OF run, of "{}"] by auto
qed

text \<open>
  A value of two spaces is not rejected: \<^verbatim>\<open>set\<close> tests \<^verbatim>\<open>not value\<close> only, so the value
  is stored in the keyring and the name is written to the index (against C2 as stated).
\<close>

theorem whitespace_value_accepted:
  "strip ''  '' = []
   \<and> set_secret {} temp_store fresh ''KEY'' ''  '' =
       (Inr (), \<lparr>keyring = [(''test-service'', ''KEY'') \<mapsto> ''  ''],
                 files = [metadata_file temp_store \<mapsto> index_doc [JString ''KEY'']],
                 trace = [KeyringSet, PathExists, Mkdir, OpenWrite, Write, Chmod]\<rparr>)"
  by (simp add: run_defs)

text \<open>
  C2, amended. A service name or a secret name that is empty or all whitespace, and a value
  that is empty, are rejected with \<^verbatim>\<open>ValueError\<close>: by \<^verbatim>\<open>__init__\<close> for the service name, by
  \<^verbatim>\<open>set\<close>, \<^verbatim>\<open>get\<close> and \<^verbatim>\<open>delete\<close> for the name, by \<^verbatim>\<open>set\<close> for the value. The world
  is then exactly as before: no library call has been made, the keyring and the files are
  untouched.
\<close>

theorem blank_input_rejected:
  "(strip service = [] \<longrightarrow>
      init home service dir = Inl (ValueError ''service_name cannot be empty''))
   \<and> (strip name = [] \<longrightarrow>
        set_secret F st w name value = (Inl (ValueError ''Secret name cannot be empty''), w)
        \<and> get F st w name = (Inl (ValueError ''Secret name cannot be empty''), w)
        \<and> delete F st w name = (Inl (ValueError ''Secret name cannot be empty''), w))
   \<and> (strip name \<noteq> [] \<and> value = [] \<longrightarrow>
        set_secret F st w name value = (Inl (ValueError ''Secret value cannot be empty''), w))"
  by (auto simp add: init_def set_secret_def get_def delete_def strip_Nil)

theorem blank_input_rejected_witness:
  "strip ''   '' = []
   \<and> init [''home''] ''   '' None = Inl (ValueError ''service_name cannot be empty'')
   \<and> set_secret {} temp_store fresh ''   '' ''value'' =
        (Inl (ValueError ''Secret name cannot be empty''), fresh)
   \<and> get {} temp_store fresh ''   '' = (Inl (ValueError ''Secret name cannot be empty''), fresh)
   \<and> delete {} temp_store fresh ''   '' =
        (Inl (ValueError ''Secret name cannot be empty''), fresh)
   \<and> strip ''KEY'' \<noteq> []
   \<and> set_secret {} temp_store fresh ''KEY'' [] =
        (Inl (ValueError ''Secret value cannot be empty''), fresh)"
proof -
  have b: "strip ''   '' = []" and k: "strip ''KEY'' \<noteq> []"
    by (simp_all add: strip_def isspace_def)
  show ?thesis
    using b k
      blank_input_rejected[of "''   ''" "[''home'']" None "''   ''" "{}" temp_store fresh "''value''"]
      blank_input_rejected[of "''   ''" "[''home'']" None "''KEY''" "{}" temp_store fresh "[]"]
    by simp
qed

text \<open>
  The file \<^verbatim>\<open>{"secrets": 5}\<close> is not of the expected schema, and \<^verbatim>\<open>_load_names\<close> returns
  the empty list for it without any error (against C3 as stated).
\<close>

theorem load_names_silently_empty:
  "fst (load_names {} temp_store
     \<lparr>keyring = Map.empty,
      files = [metadata_file temp_store \<mapsto> Doc (JObject [(''secrets'', JInt 5)])],
      trace = []\<rparr>) = Inr []"
  by (simp add: run_defs)

text \<open>
  C3, amended. For a metadata file that is there, with neither \<^verbatim>\<open>exists\<close> nor the read
  failing: when \<^verbatim>\<open>json.loads\<close> rejects its text with \<^verbatim>\<open>JSONDecodeError\<close>, \<^verbatim>\<open>_load_names\<close>
  fails with the \<^verbatim>\<open>ValueError\<close> for invalid JSON; when \<^verbatim>\<open>json.loads\<close> returns an object
  without a \<^verbatim>\<open>secrets\<close> field, or with one that is neither a list nor a dict,
  \<^verbatim>\<open>_load_names\<close> returns the empty list. (Nothing is said of the exceptions that pass
  uncaught: see \<open>names_of\<close>.)
\<close>

theorem load_names_unexpected_content:
  "files w (metadata_file st) = Some c \<and> PathExists \<notin> F \<and> ReadText \<notin> F \<longrightarrow>
     (c = NotJson \<longrightarrow>
        fst (load_names F st w) = Inl (ValueError ''Invalid JSON in metadata file''))
     \<and> (c = Doc (JObject data) \<and> map_of data ''secrets'' = None \<longrightarrow>
        fst (load_names F st w) = Inr [])
     \<and> (c = Doc (JObject data) \<and> map_of data ''secrets'' = Some v
          \<and> \<not> is_list v \<and> \<not> is_dict v \<longrightarrow>
        fst (load_names F st w) = Inr [])"
  by (cases v) (auto simp add: load_fst)

theorem load_names_unexpected_content_witness:
  "fst (load_names {} temp_store
      \<lparr>keyring = Map.empty, files = [metadata_file temp_store \<mapsto> NotJson], trace = []\<rparr>)
     = Inl (ValueError ''Invalid JSON in metadata file'')
   \<and> fst (load_names {} temp_store
      \<lparr>keyring = Map.empty,
       files = [metadata_file temp_store \<mapsto> Doc (JObject [(''names'', JArray [])])],
       trace = []\<rparr>) = Inr []
   \<and> fst (load_names {} temp_store
      \<lparr>keyring = Map.empty,
       files = [metadata_file temp_store \<mapsto> Doc (JObject [(''secrets'', JString ''X'')])],
       trace = []\<rparr>) = Inr []"
  using
    load_names_unexpected_content[of
      "\<lparr>keyring = Map.empty, files = [metadata_file temp_store \<mapsto> NotJson], trace = []\<rparr>"
      temp_store NotJson "{}"]
    load_names_unexpected_content[of
      "\<lparr>keyring = Map.empty,
        files = [metadata_file temp_store \<mapsto> Doc (JObject [(''names'', JArray [])])],
        trace = []\<rparr>"
      temp_store "Doc (JObject [(''names'', JArray [])])" "{}" "[(''names'', JArray [])]"]
    load_names_unexpected_content[of
      "\<lparr>keyring = Map.empty,
        files = [metadata_file temp_store \<mapsto> Doc (JObject [(''secrets'', JString ''X'')])],
        trace = []\<rparr>"
      temp_store "Doc (JObject [(''secrets'', JString ''X'')])" "{}"
      "[(''secrets'', JString ''X'')]" "JString ''X''"]
  by simp

text \<open>
  C4. When \<^verbatim>\<open>get(name)\<close> returns \<^verbatim>\<open>None\<close>, \<^verbatim>\<open>delete(name)\<close> returns \<^verbatim>\<open>False\<close> and the
  keyring and the files are as before, the keyring read being its only call. When \<^verbatim>\<open>get(name)\<close> returns a value:
  \<^verbatim>\<open>delete(name)\<close> returns \<^verbatim>\<open>True\<close> when no library call fails and the index loads; and
  whenever it returns, it returns \<^verbatim>\<open>True\<close>, a following \<^verbatim>\<open>get(name)\<close> returns \<^verbatim>\<open>None\<close>,
  and \<open>name\<close> is not in the list that \<^verbatim>\<open>list_names()\<close> returns, the index having listed
  no entry twice before the call (\<^verbatim>\<open>names.remove\<close> takes one occurrence out).
\<close>

theorem delete_absent_or_present:
  "(fst (get F st w name) = Inr None \<longrightarrow>
      fst (delete F st w name) = Inr False
      \<and> keyring (snd (delete F st w name)) = keyring w
      \<and> files (snd (delete F st w name)) = files w
      \<and> trace (snd (delete F st w name)) = trace w @ [KeyringGet])
   \<and> (fst (get F st w name) = Inr (Some v) \<longrightarrow>
       (F = {} \<and> fst (list_names {} st w) = Inr names0 \<longrightarrow>
          fst (delete F st w name) = Inr True)
       \<and> (delete F st w name = (Inr b, w')
            \<and> KeyringGet \<notin> G \<and> PathExists \<notin> G \<and> ReadText \<notin> G \<longrightarrow>
            b \<and> fst (get G st w' name) = Inr None
            \<and> (\<exists>names. fst (list_names G st w') = Inr names
                 \<and> (index_distinct st w \<longrightarrow> JString name \<notin> set names))))"
proof (intro conjI impI)
  assume "fst (get F st w name) = Inr None"
  then have a: "delete F st w name = (Inr False, record_call KeyringGet w)"
    by (rule delete_absent)
  show "fst (delete F st w name) = Inr False" by (simp add: a)
  show "keyring (snd (delete F st w name)) = keyring w" by (simp add: a record_call_simps)
  show "files (snd (delete F st w name)) = files w" by (simp add: a record_call_simps)
  show "trace (snd (delete F st w name)) = trace w @ [KeyringGet]"
    by (simp add: a record_call_simps)
next
  assume "fst (get F st w name) = Inr (Some v)"
    and "F = {} \<and> fst (list_names {} st w) = Inr names0"
  then show "fst (delete F st w name) = Inr True"
    using delete_present_returns[of st w name v names0] by (simp add: list_names_def)
next
  assume p: "fst (get F st w name) = Inr (Some v)"
    and r: "delete F st w name = (Inr b, w')
            \<and> KeyringGet \<notin> G \<and> PathExists \<notin> G \<and> ReadText \<notin> G"
  then have post: "b \<and> fst (get G st w' name) = Inr None
    \<and> (\<exists>names. fst (list_names G st w') = Inr names
          \<and> (index_distinct st w \<longrightarrow> JString name \<notin> set names))"
    using delete_present_post[of F st w name v b G] by simp
  from post show "b" by simp
  from post show "fst (get G st w' name) = Inr None" by simp
  from post show "\<exists>names. fst (list_names G st w') = Inr names
      \<and> (index_distinct st w \<longrightarrow> JString name \<notin> set names)"
    by simp
qed

theorem delete_absent_or_present_witness:
  "fst (get {} temp_store fresh ''NONEXISTENT'') = Inr None
   \<and> fst (delete {} temp_store fresh ''NONEXISTENT'') = Inr False
   \<and> keyring (snd (delete {} temp_store fresh ''NONEXISTENT'')) = keyring fresh
   \<and> files (snd (delete {} temp_store fresh ''NONEXISTENT'')) = files fresh
   \<and> trace (snd (delete {} temp_store fresh ''NONEXISTENT'')) = trace fresh @ [KeyringGet]
   \<and> fst (get {} temp_store
        \<lparr>keyring = [(''test-service'', ''DELETE_ME'') \<mapsto> ''value''],
         files = [metadata_file temp_store \<mapsto> index_doc [JString ''DELETE_ME'']],
         trace = []\<rparr> ''DELETE_ME'') = Inr (Some ''value'')
   \<and> delete {} temp_store
        \<lparr>keyring = [(''test-service'', ''DELETE_ME'') \<mapsto> ''value''],
         files = [metadata_file temp_store \<mapsto> index_doc [JString ''DELETE_ME'']],
         trace = []\<rparr> ''DELETE_ME'' =
       (Inr True,
        \<lparr>keyring = Map.empty,
         files = [metadata_file temp_store \<mapsto> index_doc []],
         trace = [KeyringGet, KeyringDelete, PathExists, ReadText,
                  Mkdir, OpenWrite, Write, Chmod]\<rparr>)
   \<and> fst (get {} temp_store
        \<lparr>keyring = Map.empty,
         files = [metadata_file temp_store \<mapsto> index_doc []],
         trace = [KeyringGet, KeyringDelete, PathExists, ReadText,
                  Mkdir, OpenWrite, Write, Chmod]\<rparr> ''DELETE_ME'') = Inr None
   \<and> (\<exists>names. fst (list_names {} temp_store
        \<lparr>keyring = Map.empty,
         files = [metadata_file temp_store \<mapsto> index_doc []],
         trace = [KeyringGet, KeyringDelete, PathExists, ReadText,
                  Mkdir, OpenWrite, Write, Chmod]\<rparr>) = Inr names
        \<and> JString ''DELETE_ME'' \<notin> set names)"
proof -
  let ?u = "\<lparr>keyring = [(''test-service'', ''DELETE_ME'') \<mapsto> ''value''],
         files = [metadata_file temp_store \<mapsto> index_doc [JString ''DELETE_ME'']],
         trace = []\<rparr>"
  let ?u' = "\<lparr>keyring = Map.empty,
         files = [metadata_file temp_store \<mapsto> index_doc []],
         trace = [KeyringGet, KeyringDelete, PathExists, ReadText,
                  Mkdir, OpenWrite, Write, Chmod]\<rparr>"
  have a: "fst (get {} temp_store fresh ''NONEXISTENT'') = Inr None"
    by (simp add: run_defs)
  have p: "fst (get {} temp_store ?u ''DELETE_ME'') = Inr (Some ''value'')"
    by (simp add: run_defs)
  have inv: "index_distinct temp_store ?u"
    by (simp add: run_defs)
  have run: "delete {} temp_store ?u ''DELETE_ME'' = (Inr True, ?u')"
    by (simp add: run_defs)
  show ?thesis
    using a p inv run
      delete_absent_or_present[of "{}" temp_store fresh "''NONEXISTENT''"]
      delete_absent_or_present[of "{}" temp_store ?u "''DELETE_ME''" "''value''" _ True ?u' "{}"]
    by auto
qed

text \<open>
  C5. After \<^verbatim>\<open>set(name, v1)\<close> and then \<^verbatim>\<open>set(name, v2)\<close> have returned, \<open>name\<close> is in the
  index, exactly once when the index listed no entry twice before the two calls, and
  \<^verbatim>\<open>get(name)\<close> returns \<open>v2\<close>. The second \<^verbatim>\<open>set\<close> finds the name in the index and leaves
  the file alone: its calls are the keyring write, the test for the file and the read, with
  no \<^verbatim>\<open>mkdir\<close>, \<^verbatim>\<open>write_text\<close> or \<^verbatim>\<open>chmod\<close>.
\<close>

theorem set_twice:
  assumes s1: "set_secret F1 st w name v1 = (Inr (), w1)"
    and s2: "set_secret F2 st w1 name v2 = (Inr (), w2)"
    and G: "KeyringGet \<notin> G" "PathExists \<notin> G \<and> ReadText \<notin> G"
  shows "(\<exists>names. fst (list_names G st w2) = Inr names
            \<and> JString name \<in> set names
            \<and> (index_distinct st w \<longrightarrow> count_list names (JString name) = 1))
    \<and> fst (get G st w2 name) = Inr (Some v2)
    \<and> files w2 = files w1
    \<and> trace w2 = trace w1 @ [KeyringSet, PathExists, ReadText]"
proof -
  have w1: "w1 = snd (set_secret F1 st w name v1)" and ok1: "fst (set_secret F1 st w name v1) = Inr ()"
    using s1 by simp_all
  have w2: "w2 = snd (set_secret F2 st w1 name v2)" and ok2: "fst (set_secret F2 st w1 name v2) = Inr ()"
    using s2 by simp_all
  have inv1: "index_distinct st w \<longrightarrow> index_distinct st w1"
    unfolding w1 using set_preserves_distinct by blast
  have "fst (get G st w2 name) = Inr (Some v2)
    \<and> (\<exists>names. fst (list_names G st w2) = Inr names \<and> JString name \<in> set names
          \<and> (index_distinct st w1 \<longrightarrow> count_list names (JString name) = 1))"
    unfolding w2 using ok2 G by (rule set_post)
  with inv1 have post: "fst (get G st w2 name) = Inr (Some v2)
    \<and> (\<exists>names. fst (list_names G st w2) = Inr names \<and> JString name \<in> set names
          \<and> (index_distinct st w \<longrightarrow> count_list names (JString name) = 1))"
    by blast
  from ok2 obtain names1 where l1: "fst (load_names F2 st w1) = Inr names1"
    by (rule set_succeeds_cases)
  then have "JString name \<in> set names1"
    using ok1 set_lists_name[of F1 st w name v1 F2 names1] by (simp add: w1)
  with l1 have "files w2 = files w1 \<and> trace w2 = trace w1 @ [KeyringSet, PathExists, ReadText]"
    unfolding w2 using ok2 set_present[of F2 st w1 names1 name v2] by simp
  with post show ?thesis by simp
qed

theorem set_twice_witness:
  "index_distinct temp_store fresh
   \<and> set_secret {} temp_store fresh ''KEY'' ''value1'' =
       (Inr (), \<lparr>keyring = [(''test-service'', ''KEY'') \<mapsto> ''value1''],
                 files = [metadata_file temp_store \<mapsto> index_doc [JString ''KEY'']],
                 trace = [KeyringSet, PathExists, Mkdir, OpenWrite, Write, Chmod]\<rparr>)
   \<and> set_secret {} temp_store
        \<lparr>keyring = [(''test-service'', ''KEY'') \<mapsto> ''value1''],
         files = [metadata_file temp_store \<mapsto> index_doc [JString ''KEY'']],
         trace = [KeyringSet, PathExists, Mkdir, OpenWrite, Write, Chmod]\<rparr> ''KEY'' ''value2'' =
       (Inr (), \<lparr>keyring = [(''test-service'', ''KEY'') \<mapsto> ''value2''],
                 files = [metadata_file temp_store \<mapsto> index_doc [JString ''KEY'']],
                 trace = [KeyringSet, PathExists, Mkdir, OpenWrite, Write, Chmod,
                          KeyringSet, PathExists, ReadText]\<rparr>)
   \<and> (\<exists>names. fst (list_names {} temp_store
          \<lparr>keyring = [(''test-service'', ''KEY'') \<mapsto> ''value2''],
           files = [metadata_file temp_store \<mapsto> index_doc [JString ''KEY'']],
           trace = [KeyringSet, PathExists, Mkdir, OpenWrite, Write, Chmod,
                    KeyringSet, PathExists, ReadText]\<rparr>) = Inr names
         \<and> count_list names (JString ''KEY'') = 1)
   \<and> fst (get {} temp_store
          \<lparr>keyring = [(''test-service'', ''KEY'') \<mapsto> ''value2''],
           files = [metadata_file temp_store \<mapsto> index_doc [JString ''KEY'']],
           trace = [KeyringSet, PathExists, Mkdir, OpenWrite, Write, Chmod,
                    KeyringSet, PathExists, ReadText]\<rparr> ''KEY'') = Inr (Some ''value2'')"
proof -
  let ?w1 = "\<lparr>keyring = [(''test-service'', ''KEY'') \<mapsto> ''value1''],
                 files = [metadata_file temp_store \<mapsto> index_doc [JString ''KEY'']],
                 trace = [KeyringSet, PathExists, Mkdir, OpenWrite, Write, Chmod]\<rparr>"
  let ?w2 = "\<lparr>keyring = [(''test-service'', ''KEY'') \<mapsto> ''value2''],
                 files = [metadata_file temp_store \<mapsto> index_doc [JString ''KEY'']],
                 trace = [KeyringSet, PathExists, Mkdir, OpenWrite, Write, Chmod,
                          KeyringSet, PathExists, ReadText]\<rparr>"
  have inv: "index_distinct temp_store fresh"
    by (simp add: run_defs)
  have s1: "set_secret {} temp_store fresh ''KEY'' ''value1'' = (Inr (), ?w1)"
    by (simp add: run_defs)
  have s2: "set_secret {} temp_store ?w1 ''KEY'' ''value2'' = (Inr (), ?w2)"
    by (simp add: run_defs)
  show ?thesis
    using inv s1 s2 set_twice[OF s1 s2, of "{}"] by auto
qed

text \<open>
  \<^verbatim>\<open>_save_names\<close> writes the metadata file in place. When the write fails after the file
  has been opened, the names that were on disk are lost (against C6 as stated).
\<close>

theorem save_names_truncates:
  "save_names {Write} temp_store
     \<lparr>keyring = Map.empty,
      files = [metadata_file temp_store \<mapsto> index_doc [JString ''A'']],
      trace = []\<rparr> [JString ''A'', JString ''B''] =
   (Inl (OSError ''Failed to write metadata file''),
    \<lparr>keyring = Map.empty,
     files = [metadata_file temp_store \<mapsto> NotJson],
     trace = [Mkdir, OpenWrite, Write]\<rparr>)
   \<and> NotJson \<noteq> index_doc [JString ''A'']"
  by (simp add: run_defs)

text \<open>
  C6, amended. \<^verbatim>\<open>_save_names\<close> overwrites the metadata file in place, with no temporary
  file and no rename: when it returns, the file holds the document of the given names,
  after \<^verbatim>\<open>mkdir\<close>, the open, the write and \<^verbatim>\<open>chmod\<close>; when \<^verbatim>\<open>mkdir\<close> or the open fails,
  it fails with \<^verbatim>\<open>OSError\<close> and the files are as before.
\<close>

theorem save_names_in_place:
  "(save_names F st w names = (Inr (), w') \<longrightarrow>
      files w' = (files w)(metadata_file st \<mapsto> index_doc names)
      \<and> trace w' = trace w @ [Mkdir, OpenWrite, Write, Chmod])
   \<and> (Mkdir \<in> F \<or> OpenWrite \<in> F \<longrightarrow>
        (\<exists>msg. fst (save_names F st w names) = Inl (OSError msg))
        \<and> files (snd (save_names F st w names)) = files w)"
  by (auto simp add: save_names_def setup_dirs_def write_text_def record_call_def Let_def
      split: if_splits)

theorem save_names_in_place_witness:
  "save_names {} temp_store fresh [JString ''A''] =
     (Inr (), \<lparr>keyring = Map.empty,
               files = [metadata_file temp_store \<mapsto> index_doc [JString ''A'']],
               trace = [Mkdir, OpenWrite, Write, Chmod]\<rparr>)
   \<and> files \<lparr>keyring = Map.empty,
               files = [metadata_file temp_store \<mapsto> index_doc [JString ''A'']],
               trace = [Mkdir, OpenWrite, Write, Chmod]\<rparr> =
       (files fresh)(metadata_file temp_store \<mapsto> index_doc [JString ''A''])
   \<and> OpenWrite \<in> {OpenWrite}
   \<and> (\<exists>msg. fst (save_names {OpenWrite} temp_store
        \<lparr>keyring = Map.empty,
         files = [metadata_file temp_store \<mapsto> index_doc [JString ''A'']],
         trace = []\<rparr> [JString ''B'']) = Inl (OSError msg))
   \<and> files (snd (save_names {OpenWrite} temp_store
        \<lparr>keyring = Map.empty,
         files = [metadata_file temp_store \<mapsto> index_doc [JString ''A'']],
         trace = []\<rparr> [JString ''B''])) =
       [metadata_file temp_store \<mapsto> index_doc [JString ''A'']]"
proof -
  have run: "save_names {} temp_store fresh [JString ''A''] =
     (Inr (), \<lparr>keyring = Map.empty,
               files = [metadata_file temp_store \<mapsto> index_doc [JString ''A'']],
               trace = [Mkdir, OpenWrite, Write, Chmod]\<rparr>)"
    by (simp add: run_defs)
  show ?thesis
    using run
      save_names_in_place[of "{}" temp_store fresh "[JString ''A'']"
        "\<lparr>keyring = Map.empty,
               files = [metadata_file temp_store \<mapsto> index_doc [JString ''A'']],
               trace = [Mkdir, OpenWrite, Write, Chmod]\<rparr>"]
      save_names_in_place[of "{OpenWrite}" temp_store
        "\<lparr>keyring = Map.empty,
         files = [metadata_file temp_store \<mapsto> index_doc [JString ''A'']],
         trace = []\<rparr>" "[JString ''B'']"]
    by simp
qed

text \<open>
  A name whose keyring entry is the empty string is read as present by \<^verbatim>\<open>get\<close> and yet
  left out by \<^verbatim>\<open>export_env\<close>, which tests \<^verbatim>\<open>if v\<close>; and a blank name in the index makes
  \<^verbatim>\<open>export_env\<close> fail with the \<^verbatim>\<open>ValueError\<close> of \<^verbatim>\<open>get\<close> (against C7 as stated).
\<close>

theorem export_env_not_exactly_present:
  "fst (get {} temp_store
      \<lparr>keyring = [(''test-service'', ''A'') \<mapsto> []],
       files = [metadata_file temp_store \<mapsto> index_doc [JString ''A'']],
       trace = []\<rparr> ''A'') = Inr (Some [])
   \<and> fst (export_env {} temp_store
      \<lparr>keyring = [(''test-service'', ''A'') \<mapsto> []],
       files = [metadata_file temp_store \<mapsto> index_doc [JString ''A'']],
       trace = []\<rparr>) = Inr Map.empty
   \<and> fst (export_env {} temp_store
      \<lparr>keyring = Map.empty,
       files = [metadata_file temp_store \<mapsto> index_doc [JString ''  '']],
       trace = []\<rparr>) = Inl (ValueError ''Secret name cannot be empty'')"
  by (simp add: run_defs)

text \<open>
  C7, amended. When the index loads, each of its entries is a string that is not blank, and
  the keyring reads do not fail, \<^verbatim>\<open>export_env\<close> returns the dict whose keys are the names
  of the index with a non-empty value in the keyring (under the stripped name), each with
  that value. A name with no keyring entry is left out and the export does not fail.
\<close>

theorem export_env_result:
  assumes "fst (list_names F st w) = Inr names"
    and "\<forall>n \<in> set names. \<exists>s. n = JString s \<and> strip s \<noteq> []"
    and "KeyringGet \<notin> F"
  shows "fst (export_env F st w) =
    Inr (\<lambda>s. if JString s \<in> set names
              then (case keyring w (service_name st, strip s) of
                      None \<Rightarrow> None
                    | Some v \<Rightarrow> if v = [] then None else Some v)
              else None)"
proof -
  have "export_env F st w = export_loop F st names Map.empty (snd (load_names F st w))"
    using assms(1) by (simp add: export_env_def list_names_def split_beta)
  moreover have "keyring (snd (load_names F st w)) = keyring w"
    by (simp add: load_frame)
  ultimately show ?thesis
    using export_loop_result[OF assms(3) assms(2), of st Map.empty "snd (load_names F st w)"]
    by (simp cong: if_cong)
qed

theorem export_env_result_witness:
  "fst (list_names {} temp_store
      \<lparr>keyring = [(''test-service'', ''A'') \<mapsto> ''1'', (''test-service'', ''C'') \<mapsto> ''3''],
       files = [metadata_file temp_store \<mapsto>
                  index_doc [JString ''A'', JString ''B'', JString ''C'']],
       trace = []\<rparr>) = Inr [JString ''A'', JString ''B'', JString ''C'']
   \<and> fst (export_env {} temp_store
      \<lparr>keyring = [(''test-service'', ''A'') \<mapsto> ''1'', (''test-service'', ''C'') \<mapsto> ''3''],
       files = [metadata_file temp_store \<mapsto>
                  index_doc [JString ''A'', JString ''B'', JString ''C'']],
       trace = []\<rparr>) = Inr [''A'' \<mapsto> ''1'', ''C'' \<mapsto> ''3'']"
proof -
  let ?w = "\<lparr>keyring = [(''test-service'', ''A'') \<mapsto> ''1'', (''test-service'', ''C'') \<mapsto> ''3''],
       files = [metadata_file temp_store \<mapsto>
                  index_doc [JString ''A'', JString ''B'', JString ''C'']],
       trace = []\<rparr>"
  have l: "fst (list_names {} temp_store ?w) = Inr [JString ''A'', JString ''B'', JString ''C'']"
    by (simp add: run_defs)
  have v: "\<forall>n \<in> set [JString ''A'', JString ''B'', JString ''C'']. \<exists>s. n = JString s \<and> strip s \<noteq> []"
    by (simp add: strip_def isspace_def)
  have m: "(\<lambda>s. if JString s \<in> set [JString ''A'', JString ''B'', JString ''C'']
              then (case keyring ?w (service_name temp_store, strip s) of
                      None \<Rightarrow> None
                    | Some v \<Rightarrow> if v = [] then None else Some v)
              else None) = [''A'' \<mapsto> ''1'', ''C'' \<mapsto> ''3'']"
    by (auto simp add: fun_eq_iff temp_store_def strip_def isspace_def)
  show ?thesis
    using l export_env_result[OF l v] m by simp
qed



text \<open>
  C9. The result of \<^verbatim>\<open>get\<close> depends on the keyring only: in two worlds with the same
  keyring, whatever their files and traces, it is the same. The only library call of
  \<^verbatim>\<open>get\<close> is \<^verbatim>\<open>keyring.get_password\<close>: the metadata file is neither looked for nor read.
\<close>

theorem get_reads_vault_only:
  "fst (get F st \<lparr>keyring = k, files = fs1, trace = t1\<rparr> name) =
   fst (get F st \<lparr>keyring = k, files = fs2, trace = t2\<rparr> name)
   \<and> trace (snd (get F st w name)) =
       trace w @ (if name = [] \<or> strip name = [] then [] else [KeyringGet])"
  by (simp add: get_fst get_snd record_call_def)

text \<open>
  C10. Let \<open>name\<close> have surrounding whitespace and not be blank. A \<^verbatim>\<open>set(name, value)\<close>
  that returns has stored the value under the stripped name in the keyring, and the index
  is the old one with the raw \<open>name\<close> appended (or the old one, when it listed the raw
  name). \<^verbatim>\<open>get(name)\<close> is \<^verbatim>\<open>get\<close> of the stripped name. After \<^verbatim>\<open>set\<close> of the name and
  \<^verbatim>\<open>set\<close> of the stripped name, \<^verbatim>\<open>list_names()\<close> holds both, as different entries.
  (\<^verbatim>\<open>list_names()\<close> is called with neither \<^verbatim>\<open>exists\<close> nor the read failing.)
\<close>

theorem padded_name:
  assumes "strip name \<noteq> []" and "strip name \<noteq> name"
  shows "(set_secret F st w name value = (Inr (), w')
        \<and> PathExists \<notin> G \<and> ReadText \<notin> G \<longrightarrow>
        keyring w' = (keyring w)((service_name st, strip name) \<mapsto> value)
        \<and> (\<exists>names0. fst (list_names F st w) = Inr names0
             \<and> fst (list_names G st w') =
                 Inr (if JString name \<in> set names0 then names0 else names0 @ [JString name])))
    \<and> get F st w name = get F st w (strip name)
    \<and> (set_secret F1 st w name v1 = (Inr (), w1)
        \<and> set_secret F2 st w1 (strip name) v2 = (Inr (), w2)
        \<and> PathExists \<notin> G \<and> ReadText \<notin> G \<longrightarrow>
        (\<exists>names. fst (list_names G st w2) = Inr names
           \<and> JString name \<in> set names \<and> JString (strip name) \<in> set names
           \<and> JString name \<noteq> JString (strip name)))"
proof (intro conjI impI)
  assume a: "set_secret F st w name value = (Inr (), w')
        \<and> PathExists \<notin> G \<and> ReadText \<notin> G"
  then have ok: "fst (set_secret F st w name value) = Inr ()"
    and w': "w' = snd (set_secret F st w name value)" by simp_all
  from ok have "name \<noteq> []" "value \<noteq> []" "KeyringSet \<notin> F"
    by (auto simp add: set_fst split: if_splits)
  then show "keyring w' = (keyring w)((service_name st, strip name) \<mapsto> value)"
    using assms(1) by (simp add: w' set_keyring)
  show "\<exists>names0. fst (list_names F st w) = Inr names0
     \<and> fst (list_names G st w') =
         Inr (if JString name \<in> set names0 then names0 else names0 @ [JString name])"
    unfolding w' list_names_def using ok a by (intro set_index) simp_all
next
  show "get F st w name = get F st w (strip name)" by (simp add: get_strip)
next
  assume a: "set_secret F1 st w name v1 = (Inr (), w1)
        \<and> set_secret F2 st w1 (strip name) v2 = (Inr (), w2)
        \<and> PathExists \<notin> G \<and> ReadText \<notin> G"
  then have ok1: "fst (set_secret F1 st w name v1) = Inr ()"
    and w1: "w1 = snd (set_secret F1 st w name v1)"
    and ok2: "fst (set_secret F2 st w1 (strip name) v2) = Inr ()"
    and w2: "w2 = snd (set_secret F2 st w1 (strip name) v2)"
    and G: "PathExists \<notin> G \<and> ReadText \<notin> G" by simp_all
  from ok2 G obtain names1 where l1: "fst (load_names F2 st w1) = Inr names1"
    and l2: "fst (load_names G st w2) =
      Inr (if JString (strip name) \<in> set names1 then names1 else names1 @ [JString (strip name)])"
    unfolding w2 using set_index[of F2 st w1 "strip name" v2 G] by blast
  have "JString name \<in> set names1"
    using ok1 l1 set_lists_name[of F1 st w name v1 F2 names1] by (simp add: w1)
  then show "\<exists>names. fst (list_names G st w2) = Inr names
           \<and> JString name \<in> set names \<and> JString (strip name) \<in> set names
           \<and> JString name \<noteq> JString (strip name)"
    using l2 assms(2) by (auto simp add: list_names_def)
qed

theorem padded_name_witness:
  "strip '' KEY '' \<noteq> [] \<and> strip '' KEY '' \<noteq> '' KEY ''
   \<and> set_secret {} temp_store fresh '' KEY '' ''v1'' =
       (Inr (), \<lparr>keyring = [(''test-service'', ''KEY'') \<mapsto> ''v1''],
                 files = [metadata_file temp_store \<mapsto> index_doc [JString '' KEY '']],
                 trace = [KeyringSet, PathExists, Mkdir, OpenWrite, Write, Chmod]\<rparr>)
   \<and> set_secret {} temp_store
        \<lparr>keyring = [(''test-service'', ''KEY'') \<mapsto> ''v1''],
         files = [metadata_file temp_store \<mapsto> index_doc [JString '' KEY '']],
         trace = [KeyringSet, PathExists, Mkdir, OpenWrite, Write, Chmod]\<rparr>
        (strip '' KEY '') ''v2'' =
       (Inr (), \<lparr>keyring = [(''test-service'', ''KEY'') \<mapsto> ''v2''],
                 files = [metadata_file temp_store \<mapsto>
                            index_doc [JString '' KEY '', JString ''KEY'']],
                 trace = [KeyringSet, PathExists, Mkdir, OpenWrite, Write, Chmod,
                          KeyringSet, PathExists, ReadText,
                          Mkdir, OpenWrite, Write, Chmod]\<rparr>)
   \<and> get {} temp_store fresh '' KEY '' = get {} temp_store fresh (strip '' KEY '')
   \<and> (\<exists>names. fst (list_names {} temp_store
          \<lparr>keyring = [(''test-service'', ''KEY'') \<mapsto> ''v2''],
           files = [metadata_file temp_store \<mapsto>
                      index_doc [JString '' KEY '', JString ''KEY'']],
           trace = [KeyringSet, PathExists, Mkdir, OpenWrite, Write, Chmod,
                    KeyringSet, PathExists, ReadText,
                    Mkdir, OpenWrite, Write, Chmod]\<rparr>) = Inr names
         \<and> JString '' KEY '' \<in> set names \<and> JString (strip '' KEY '') \<in> set names
         \<and> JString '' KEY '' \<noteq> JString (strip '' KEY ''))"
proof -
  let ?w1 = "\<lparr>keyring = [(''test-service'', ''KEY'') \<mapsto> ''v1''],
                 files = [metadata_file temp_store \<mapsto> index_doc [JString '' KEY '']],
                 trace = [KeyringSet, PathExists, Mkdir, OpenWrite, Write, Chmod]\<rparr>"
  let ?w2 = "\<lparr>keyring = [(''test-service'', ''KEY'') \<mapsto> ''v2''],
                 files = [metadata_file temp_store \<mapsto>
                            index_doc [JString '' KEY '', JString ''KEY'']],
                 trace = [KeyringSet, PathExists, Mkdir, OpenWrite, Write, Chmod,
                          KeyringSet, PathExists, ReadText,
                          Mkdir, OpenWrite, Write, Chmod]\<rparr>"
  have n1: "strip '' KEY '' \<noteq> []" and n2: "strip '' KEY '' \<noteq> '' KEY ''"
    by (simp_all add: strip_def isspace_def)
  have s1: "set_secret {} temp_store fresh '' KEY '' ''v1'' = (Inr (), ?w1)"
    by (simp add: run_defs)
  have s2: "set_secret {} temp_store ?w1 (strip '' KEY '') ''v2'' = (Inr (), ?w2)"
    by (simp add: run_defs)
  show ?thesis
    using n1 n2 s1 s2
      padded_name[OF n1 n2, of "{}" temp_store fresh "''v1''" ?w1 "{}" "{}" "''v1''" ?w1 "{}" "''v2''" ?w2]
    by simp
qed

end
